theory Spec2Isabelle
  imports Complex_Main "HOL-Library.Word"
begin

section \<open>Data model of \<open>src/ufo/filters/QCmanager.cc\<close>\<close>

text \<open>
  The C++ \<open>int\<close> of the flag matrix is a 32-bit word (the code only compares flags
  for equality, so the sign does not matter); the counters of
  \<open>QCmanager::print\<close> are \<open>size_t\<close>, a 64-bit unsigned word whose \<open>+\<close> wraps.
\<close>

type_synonym cint = "32 word"
type_synonym size_t = "64 word"

text \<open>
  The named constants of \<open>ufo/filters/QCflags.h\<close>. The header is not part of the
  source at hand, so the constants are a parameter of every operation that names one.
  The code itself compares with the literals \<open>0\<close>, \<open>76\<close> and \<open>77\<close> where it writes them.
\<close>

record QCflags =
  pass :: cint
  missing :: cint
  preQC :: cint
  bounds :: cint
  domain :: cint
  black :: cint
  Hfailed :: cint
  thinned :: cint
  fguess :: cint

text \<open>
  \<open>ioda::ObsDataVector<T>\<close>: \<open>nvars()\<close>, \<open>nlocs()\<close>, \<open>obstype()\<close> and one
  \<open>std::vector<T>\<close> per variable, read and written with \<open>[jv][jobs]\<close>.
\<close>

record 'a ObsDataVector =
  dv_nvars :: nat
  dv_nlocs :: nat
  dv_obstype :: string
  dv_rows :: "'a list list"

text \<open>
  The class invariant of \<open>ObsDataVector\<close>: \<open>nvars()\<close> rows of \<open>nlocs()\<close> entries each.
  \<open>std::vector::operator[]\<close> is unchecked, so the code is only defined on such data.
\<close>

definition dv_ok :: "'a ObsDataVector \<Rightarrow> bool" where
  "dv_ok d \<longleftrightarrow> length (dv_rows d) = dv_nvars d \<and> list_all (\<lambda>r. length r = dv_nlocs d) (dv_rows d)"

definition dv_get :: "'a ObsDataVector \<Rightarrow> nat \<Rightarrow> nat \<Rightarrow> 'a" where
  "dv_get d jv jobs = dv_rows d ! jv ! jobs"

definition dv_set :: "'a ObsDataVector \<Rightarrow> nat \<Rightarrow> nat \<Rightarrow> 'a \<Rightarrow> 'a ObsDataVector" where
  "dv_set d jv jobs v = d\<lparr>dv_rows := (dv_rows d)[jv := (dv_rows d ! jv)[jobs := v]]\<rparr>"

text \<open>
  \<open>ioda::ObsSpace\<close>, as far as the manager uses it: the observed variables, the number
  of locations held by this worker, the stored values by group, variable and location,
  the name of the observation type, and the rank of this worker in \<open>comm()\<close>.
\<close>

record 'f ObsSpace =
  obsvariables :: "string list"
  nlocs :: nat
  get_db :: "string \<Rightarrow> string \<Rightarrow> nat \<Rightarrow> 'f"
  obsname :: string
  comm_rank :: nat

text \<open>
  \<open>ObsDataVector<float> obs(obsdb, observed_, "ObsValue")\<close>: one row per variable of the
  list, one entry per location of the space.
\<close>

definition ObsDataVector_read :: "'f ObsSpace \<Rightarrow> string list \<Rightarrow> string \<Rightarrow> 'f ObsDataVector" where
  "ObsDataVector_read obsdb vars grp =
     \<lparr>dv_nvars = length vars, dv_nlocs = nlocs obsdb, dv_obstype = obsname obsdb,
      dv_rows = map (\<lambda>v. map (get_db obsdb grp v) [0..<nlocs obsdb]) vars\<rparr>"

text \<open>
  The members of \<open>QCmanager\<close> that the operations read: \<open>obsdb_\<close>, \<open>flags_\<close> and
  \<open>observed_\<close>.
\<close>

record 'f QCmanager =
  obsdb :: "'f ObsSpace"
  flags :: "cint ObsDataVector"
  observed :: "string list"

text \<open>
  Both failures are a failed \<open>ASSERT\<close>; they are told apart by the place of the
  assertion: in the constructor, or at the end of the loop body of \<open>print\<close>.
\<close>

datatype error = ConfigurationError | ConsistencyError

section \<open>The constructor\<close>

text \<open>
  The loop of the constructor (lines 55 to 61): \<open>int_miss\<close> and \<open>float_miss\<close> are
  \<open>util::missingValue\<close> at \<open>int\<close> and \<open>float\<close>.
\<close>

definition assign_missing ::
  "QCflags \<Rightarrow> cint \<Rightarrow> 'f \<Rightarrow> 'f ObsDataVector \<Rightarrow> 'f ObsDataVector \<Rightarrow> nat \<Rightarrow> nat
    \<Rightarrow> cint ObsDataVector \<Rightarrow> cint ObsDataVector" where
  "assign_missing q int_miss float_miss obs obserr V N fl =
     fold (\<lambda>jv. fold (\<lambda>jobs fl.
        if dv_get fl jv jobs = int_miss \<or> dv_get obs jv jobs = float_miss
           \<or> dv_get obserr jv jobs = float_miss
        then dv_set fl jv jobs (missing q) else fl) [0..<N]) [0..<V] fl"

text \<open>
  The constructor: a null \<open>shared_ptr\<close> is \<open>None\<close>. The six assertions in their order,
  then the observed values are read from the observation space and the loop runs over the
  flags that \<open>qcflags\<close> points to. The type parameter \<open>'f\<close> stands for \<open>float\<close>: the code
  only compares such values with the marker. The member \<open>flags_\<close> is bound to
  \<open>*qcflags\<close> before \<open>ASSERT(qcflags)\<close> runs; a null \<open>qcflags\<close> is taken here as the
  failure of that assertion.
\<close>

definition QCmanager_ctor ::
  "QCflags \<Rightarrow> cint \<Rightarrow> 'f \<Rightarrow> 'f ObsSpace \<Rightarrow> cint ObsDataVector option
    \<Rightarrow> 'f ObsDataVector option \<Rightarrow> error + 'f QCmanager" where
  "QCmanager_ctor q int_miss float_miss db qcflags obserr =
     (case qcflags of None \<Rightarrow> Inl ConfigurationError | Some fl \<Rightarrow>
      case obserr of None \<Rightarrow> Inl ConfigurationError | Some err \<Rightarrow>
        if dv_nvars fl \<noteq> length (obsvariables db) then Inl ConfigurationError
        else if dv_nlocs fl \<noteq> nlocs db then Inl ConfigurationError
        else if dv_nvars err \<noteq> length (obsvariables db) then Inl ConfigurationError
        else if dv_nlocs err \<noteq> nlocs db then Inl ConfigurationError
        else Inr \<lparr>obsdb = db,
                  flags = assign_missing q int_miss float_miss
                            (ObsDataVector_read db (obsvariables db) ''ObsValue'') err
                            (length (obsvariables db)) (nlocs db) fl,
                  observed = obsvariables db\<rparr>)"

section \<open>\<open>postFilter\<close>\<close>

text \<open>
  \<open>hofx\<close> is the \<open>ioda::ObsVector\<close>, read at \<open>observed_.size() * jobs + jv\<close>;
  \<open>double_miss\<close> is \<open>util::missingValue\<close> at \<open>double\<close>. The flags are written through
  the reference \<open>flags_\<close>; the manager with the new flags is returned.
\<close>

definition postFilter :: "QCflags \<Rightarrow> 'd \<Rightarrow> 'f QCmanager \<Rightarrow> 'd list \<Rightarrow> 'f QCmanager" where
  "postFilter q double_miss m hofx =
     m\<lparr>flags := fold (\<lambda>jv. fold (\<lambda>jobs fl.
        if dv_get fl jv jobs = 0 \<and> hofx ! (length (observed m) * jobs + jv) = double_miss
        then dv_set fl jv jobs (Hfailed q) else fl) [0..<nlocs (obsdb m)])
        [0..<length (observed m)] (flags m)\<rparr>"

section \<open>\<open>print\<close>\<close>

text \<open>The local counters of one pass of the outer loop of \<open>print\<close>.\<close>

record counts =
  iobs :: size_t
  ipass :: size_t
  imiss :: size_t
  ipreq :: size_t
  ibnds :: size_t
  iwhit :: size_t
  iblck :: size_t
  iherr :: size_t
  ifgss :: size_t
  ignss :: size_t
  ithin :: size_t

text \<open>\<open>if (b) ++counter;\<close> on the record of the counters.\<close>

definition incr_if :: "bool \<Rightarrow> ((size_t \<Rightarrow> size_t) \<Rightarrow> counts \<Rightarrow> counts) \<Rightarrow> counts \<Rightarrow> counts" where
  "incr_if b counter c = (if b then counter (\<lambda>n. n + 1) c else c)"

text \<open>The body of the inner loop: ten independent tests of one flag, in the order of the code.\<close>

definition count_flag :: "QCflags \<Rightarrow> cint \<Rightarrow> counts \<Rightarrow> counts" where
  "count_flag q f c0 =
     (let c1 = incr_if (f = pass q) ipass_update c0;
          c2 = incr_if (f = missing q) imiss_update c1;
          c3 = incr_if (f = preQC q) ipreq_update c2;
          c4 = incr_if (f = bounds q) ibnds_update c3;
          c5 = incr_if (f = domain q) iwhit_update c4;
          c6 = incr_if (f = black q) iblck_update c5;
          c7 = incr_if (f = Hfailed q) iherr_update c6;
          c8 = incr_if (f = fguess q) ifgss_update c7;
          c9 = incr_if (f = thinned q) ithin_update c8;
          c10 = incr_if (f = 76 \<or> f = 77) ignss_update c9
      in c10)"

text \<open>The counters of this worker for variable \<open>jj\<close>, before the reduction.\<close>

definition local_counts :: "QCflags \<Rightarrow> 'f QCmanager \<Rightarrow> nat \<Rightarrow> counts" where
  "local_counts q m jj =
     fold (\<lambda>jobs. count_flag q (dv_get (flags m) jj jobs)) [0..<nlocs (obsdb m)]
       \<lparr>iobs = of_nat (nlocs (obsdb m)), ipass = 0, imiss = 0, ipreq = 0, ibnds = 0, iwhit = 0,
        iblck = 0, iherr = 0, ifgss = 0, ignss = 0, ithin = 0\<rparr>"

text \<open>
  \<open>comm().allReduceInPlace(x, eckit::mpi::sum())\<close>: every worker of the communicator
  contributes its value and receives the sum, in \<open>size_t\<close> arithmetic. \<open>others\<close> are the
  values of the other workers.
\<close>

definition allReduceInPlace :: "size_t list \<Rightarrow> size_t \<Rightarrow> size_t" where
  "allReduceInPlace others x = x + sum_list others"

text \<open>
  The eleven reductions. The other workers of the communicator run the same loop over the
  same variables on their own flags, so their contributions to the reductions of variable
  \<open>jj\<close> are their local counters for \<open>jj\<close>.
\<close>

definition reduce_counts :: "counts list \<Rightarrow> counts \<Rightarrow> counts" where
  "reduce_counts others c =
     \<lparr>iobs = allReduceInPlace (map iobs others) (iobs c),
      ipass = allReduceInPlace (map ipass others) (ipass c),
      imiss = allReduceInPlace (map imiss others) (imiss c),
      ipreq = allReduceInPlace (map ipreq others) (ipreq c),
      ibnds = allReduceInPlace (map ibnds others) (ibnds c),
      iwhit = allReduceInPlace (map iwhit others) (iwhit c),
      iblck = allReduceInPlace (map iblck others) (iblck c),
      iherr = allReduceInPlace (map iherr others) (iherr c),
      ifgss = allReduceInPlace (map ifgss others) (ifgss c),
      ignss = allReduceInPlace (map ignss others) (ignss c),
      ithin = allReduceInPlace (map ithin others) (ithin c)\<rparr>"

definition global_counts :: "QCflags \<Rightarrow> 'f QCmanager list \<Rightarrow> 'f QCmanager \<Rightarrow> nat \<Rightarrow> counts" where
  "global_counts q peers m jj = reduce_counts (map (\<lambda>p. local_counts q p jj) peers) (local_counts q m jj)"

text \<open>\<open>os << n\<close> for a \<open>size_t\<close>: the decimal digits.\<close>

fun string_of_nat :: "nat \<Rightarrow> string" where
  "string_of_nat n =
     (if n < 10 then [''0123456789'' ! n]
      else string_of_nat (n div 10) @ [''0123456789'' ! (n mod 10)])"

declare string_of_nat.simps [simp del]

definition show_size_t :: "size_t \<Rightarrow> string" where
  "show_size_t x = string_of_nat (unat x)"

text \<open>
  The stream is the list of the lines written so far, every \<open>std::endl\<close> closing one.
  \<open>if (b) os << line << std::endl;\<close>:
\<close>

definition emit_if :: "bool \<Rightarrow> string \<Rightarrow> string list \<Rightarrow> string list" where
  "emit_if b line os = (if b then os @ [line] else os)"

text \<open>The block under \<open>if (obsdb_.comm().rank() == 0)\<close>.\<close>

definition report :: "string \<Rightarrow> counts \<Rightarrow> string list \<Rightarrow> string list" where
  "report info g os0 =
     (let os1 = emit_if (0 < imiss g) (info @ show_size_t (imiss g) @ '' missing values.'') os0;
          os2 = emit_if (0 < ipreq g) (info @ show_size_t (ipreq g) @ '' rejected by pre QC.'') os1;
          os3 = emit_if (0 < ibnds g) (info @ show_size_t (ibnds g) @ '' out of bounds.'') os2;
          os4 = emit_if (0 < iwhit g) (info @ show_size_t (iwhit g) @ '' out of domain of use.'') os3;
          os5 = emit_if (0 < iblck g) (info @ show_size_t (iblck g) @ '' black-listed.'') os4;
          os6 = emit_if (0 < iherr g) (info @ show_size_t (iherr g) @ '' H(x) failed.'') os5;
          os7 = emit_if (0 < ithin g) (info @ show_size_t (ithin g) @ '' removed by thinning.'') os6;
          os8 = emit_if (0 < ifgss g) (info @ show_size_t (ifgss g) @ '' rejected by first-guess check.'') os7;
          os9 = emit_if (0 < ignss g) (info @ show_size_t (ignss g) @ '' rejected by GNSSRO reality check.'') os8
      in os9 @ [info @ show_size_t (ipass g) @ '' passed out of '' @ show_size_t (iobs g)
                  @ '' observations.''])"

definition info_of :: "'f QCmanager \<Rightarrow> nat \<Rightarrow> string" where
  "info_of m jj = ''QC '' @ dv_obstype (flags m) @ '' '' @ observed m ! jj @ '': ''"

text \<open>The left-hand side of the final \<open>ASSERT\<close>, in its order.\<close>

definition category_sum :: "counts \<Rightarrow> size_t" where
  "category_sum g = ipass g + imiss g + ipreq g + ibnds g + iwhit g + iblck g + iherr g
                     + ithin g + ifgss g + ignss g"

text \<open>
  One pass of the outer loop of \<open>print\<close> for variable \<open>jj\<close> on the worker \<open>m\<close>, the
  other workers of the communicator being \<open>peers\<close>: count, reduce, write on rank 0,
  then assert. A failed assertion leaves what was written in the stream.
\<close>

definition print_var ::
  "QCflags \<Rightarrow> 'f QCmanager list \<Rightarrow> 'f QCmanager \<Rightarrow> nat \<Rightarrow> string list \<Rightarrow> (error + unit) \<times> string list" where
  "print_var q peers m jj os =
     (let g = global_counts q peers m jj;
          os' = (if comm_rank (obsdb m) = 0 then report (info_of m jj) g os else os)
      in if category_sum g = iobs g then (Inr (), os') else (Inl ConsistencyError, os'))"

fun print_loop ::
  "QCflags \<Rightarrow> 'f QCmanager list \<Rightarrow> 'f QCmanager \<Rightarrow> nat list \<Rightarrow> string list \<Rightarrow> (error + unit) \<times> string list" where
  "print_loop q peers m [] os = (Inr (), os)"
| "print_loop q peers m (jj # jjs) os =
     (case print_var q peers m jj os of
        (Inl e, os') \<Rightarrow> (Inl e, os')
      | (Inr u, os') \<Rightarrow> print_loop q peers m jjs os')"

definition print ::
  "QCflags \<Rightarrow> 'f QCmanager list \<Rightarrow> 'f QCmanager \<Rightarrow> string list \<Rightarrow> (error + unit) \<times> string list" where
  "print q peers m os = print_loop q peers m [0..<length (observed m)] os"

section \<open>Runs of the two mutating operations\<close>

text \<open>
  A run of the core on one flag matrix: a constructor call on the flags of the current
  manager (the flags are shared through \<open>qcflags\<close>), or a call of \<open>postFilter\<close>.
  A failed assertion ends the run.
\<close>

datatype ('f, 'd) operation =
  Initializer "'f ObsSpace" "'f ObsDataVector option"
| is_Updater: Updater "'d list"

fun apply_op ::
  "QCflags \<Rightarrow> cint \<Rightarrow> 'f \<Rightarrow> 'd \<Rightarrow> 'f QCmanager \<Rightarrow> ('f, 'd) operation \<Rightarrow> error + 'f QCmanager" where
  "apply_op q im fm dm m (Initializer db obserr) = QCmanager_ctor q im fm db (Some (flags m)) obserr"
| "apply_op q im fm dm m (Updater hofx) = Inr (postFilter q dm m hofx)"

fun run_ops ::
  "QCflags \<Rightarrow> cint \<Rightarrow> 'f \<Rightarrow> 'd \<Rightarrow> 'f QCmanager \<Rightarrow> ('f, 'd) operation list \<Rightarrow> error + 'f QCmanager" where
  "run_ops q im fm dm m [] = Inr m"
| "run_ops q im fm dm m (x # xs) =
     (case apply_op q im fm dm m x of Inl e \<Rightarrow> Inl e | Inr m' \<Rightarrow> run_ops q im fm dm m' xs)"

section \<open>Well-formed states and the vocabulary of the properties\<close>

text \<open>What the assertions of the constructor establish about a manager.\<close>

definition QCmanager_ok :: "'f QCmanager \<Rightarrow> bool" where
  "QCmanager_ok m \<longleftrightarrow> dv_ok (flags m) \<and> dv_nvars (flags m) = length (observed m)
      \<and> dv_nlocs (flags m) = nlocs (obsdb m)"

text \<open>The constants of \<open>QCflags.h\<close> and the two literals are pairwise different.\<close>

definition QCflags_distinct :: "QCflags \<Rightarrow> bool" where
  "QCflags_distinct q \<longleftrightarrow>
     distinct [pass q, missing q, preQC q, bounds q, domain q, black q, Hfailed q, fguess q,
               thinned q, 76, 77]"

definition recognized :: "QCflags \<Rightarrow> cint \<Rightarrow> bool" where
  "recognized q f \<longleftrightarrow>
     f \<in> set [pass q, missing q, preQC q, bounds q, domain q, black q, Hfailed q, fguess q,
               thinned q, 76, 77]"

text \<open>Column \<open>jj\<close> of a worker, as \<open>print\<close> scans it.\<close>

definition column :: "'f QCmanager \<Rightarrow> nat \<Rightarrow> cint list" where
  "column m jj = map (dv_get (flags m) jj) [0..<nlocs (obsdb m)]"

text \<open>The number of cells of column \<open>jj\<close>, over all workers \<open>ws\<close>, whose flag satisfies \<open>P\<close>.\<close>

definition global_count :: "'f QCmanager list \<Rightarrow> nat \<Rightarrow> (cint \<Rightarrow> bool) \<Rightarrow> nat" where
  "global_count ws jj P = sum_list (map (\<lambda>w. length (filter P (column w jj))) ws)"

definition global_total :: "'f QCmanager list \<Rightarrow> nat" where
  "global_total ws = sum_list (map (\<lambda>w. nlocs (obsdb w)) ws)"

text \<open>
  The report of one variable in the words of the specification: one line per category
  whose global count is not zero, in the order missing, preQC, bounds, domain, black,
  forwardOperatorFailed, thinned, firstGuessFailed, gnssroRealityCheck (codes 76 and 77
  together), then the summary line.
\<close>

definition spec_report :: "QCflags \<Rightarrow> 'f QCmanager list \<Rightarrow> nat \<Rightarrow> string \<Rightarrow> string list" where
  "spec_report q ws jj info =
     map (\<lambda>(n, txt). info @ string_of_nat n @ txt)
       (filter (\<lambda>(n, txt). n \<noteq> 0)
         [(global_count ws jj (\<lambda>f. f = missing q), '' missing values.''),
          (global_count ws jj (\<lambda>f. f = preQC q), '' rejected by pre QC.''),
          (global_count ws jj (\<lambda>f. f = bounds q), '' out of bounds.''),
          (global_count ws jj (\<lambda>f. f = domain q), '' out of domain of use.''),
          (global_count ws jj (\<lambda>f. f = black q), '' black-listed.''),
          (global_count ws jj (\<lambda>f. f = Hfailed q), '' H(x) failed.''),
          (global_count ws jj (\<lambda>f. f = thinned q), '' removed by thinning.''),
          (global_count ws jj (\<lambda>f. f = fguess q), '' rejected by first-guess check.''),
          (global_count ws jj (\<lambda>f. f = 76 \<or> f = 77), '' rejected by GNSSRO reality check.'')])
     @ [info @ string_of_nat (global_count ws jj (\<lambda>f. f = pass q)) @ '' passed out of ''
          @ string_of_nat (global_total ws) @ '' observations.'']"

text \<open>The lines that one pass of the outer loop writes, and whether its assertion holds.\<close>

definition var_lines :: "QCflags \<Rightarrow> 'f QCmanager list \<Rightarrow> 'f QCmanager \<Rightarrow> nat \<Rightarrow> string list" where
  "var_lines q peers m jj =
     (if comm_rank (obsdb m) = 0 then report (info_of m jj) (global_counts q peers m jj) [] else [])"

definition complete :: "QCflags \<Rightarrow> 'f QCmanager list \<Rightarrow> 'f QCmanager \<Rightarrow> nat \<Rightarrow> bool" where
  "complete q peers m jj \<longleftrightarrow>
     category_sum (global_counts q peers m jj) = iobs (global_counts q peers m jj)"

section \<open>Example data\<close>

text \<open>
  Values for the constants of \<open>QCflags.h\<close> and for the missing-value markers, used in
  the examples only. Floating-point values are reals here; the code only compares them
  with the marker.
\<close>

definition ufo_flags :: QCflags where
  "ufo_flags = \<lparr>pass = 0, missing = 1, preQC = 2, bounds = 3, domain = 4, black = 5,
                Hfailed = 6, thinned = 7, fguess = 10\<rparr>"

definition ex_imiss :: cint where
  "ex_imiss = 2147483653"

definition ex_rmiss :: real where
  "ex_rmiss = - 336879530 * 10 ^ 30"

text \<open>One variable, three locations: the observed values \<open>[1.0, MISSING, 2.0]\<close>.\<close>

definition ex_db :: "real ObsSpace" where
  "ex_db = \<lparr>obsvariables = [''air_temperature''], nlocs = 3,
            get_db = (\<lambda>grp v jobs. if grp = ''ObsValue'' then [1, ex_rmiss, 2] ! jobs else 0),
            obsname = ''Radiosonde'', comm_rank = 0\<rparr>"

definition ex_flags :: "cint list \<Rightarrow> cint ObsDataVector" where
  "ex_flags row = \<lparr>dv_nvars = 1, dv_nlocs = 3, dv_obstype = ''Radiosonde'', dv_rows = [row]\<rparr>"

definition ex_obserr :: "real ObsDataVector" where
  "ex_obserr = \<lparr>dv_nvars = 1, dv_nlocs = 3, dv_obstype = ''Radiosonde'',
                dv_rows = [[1 / 10, 1 / 10, ex_rmiss]]\<rparr>"

definition ex_manager :: "cint list \<Rightarrow> real QCmanager" where
  "ex_manager row = \<lparr>obsdb = ex_db, flags = ex_flags row, observed = [''air_temperature'']\<rparr>"

text \<open>A worker that holds no record of two variables.\<close>

definition ex_empty_db :: "real ObsSpace" where
  "ex_empty_db = \<lparr>obsvariables = [''eastward_wind'', ''northward_wind''], nlocs = 0,
                  get_db = (\<lambda>grp v jobs. 0), obsname = ''Aircraft'', comm_rank = 0\<rparr>"

definition ex_empty :: "'a ObsDataVector" where
  "ex_empty = \<lparr>dv_nvars = 2, dv_nlocs = 0, dv_obstype = ''Aircraft'', dv_rows = [[], []]\<rparr>"

section \<open>Cell loops\<close>

text \<open>
  Both loops visit every cell once and overwrite it with a fixed value where a test
  of the cell's own content and position holds.
\<close>

definition cell_step :: "(nat \<Rightarrow> nat \<Rightarrow> 'a \<Rightarrow> bool) \<Rightarrow> 'a \<Rightarrow> nat \<Rightarrow> nat \<Rightarrow> 'a ObsDataVector \<Rightarrow> 'a ObsDataVector" where
  "cell_step c v jv jobs fl = (if c jv jobs (dv_get fl jv jobs) then dv_set fl jv jobs v else fl)"

definition cell_loop :: "(nat \<Rightarrow> nat \<Rightarrow> 'a \<Rightarrow> bool) \<Rightarrow> 'a \<Rightarrow> nat \<Rightarrow> nat \<Rightarrow> 'a ObsDataVector \<Rightarrow> 'a ObsDataVector" where
  "cell_loop c v V N fl = fold (\<lambda>jv. fold (\<lambda>jobs. cell_step c v jv jobs) [0..<N]) [0..<V] fl"

text \<open>What the loops never change: the dimensions, the name and the length of every row.\<close>

definition dv_shape :: "'a ObsDataVector \<Rightarrow> nat \<times> nat \<times> string \<times> nat list" where
  "dv_shape d = (dv_nvars d, dv_nlocs d, dv_obstype d, map length (dv_rows d))"

lemma assign_missing_cell_loop:
  "assign_missing q im fm obs obserr V N fl =
     cell_loop (\<lambda>jv jobs x. x = im \<or> dv_get obs jv jobs = fm \<or> dv_get obserr jv jobs = fm)
       (missing q) V N fl"
  unfolding assign_missing_def cell_loop_def cell_step_def [abs_def] by simp

lemma postFilter_cell_loop:
  "flags (postFilter q dm m hofx) =
     cell_loop (\<lambda>jv jobs x. x = 0 \<and> hofx ! (length (observed m) * jobs + jv) = dm)
       (Hfailed q) (length (observed m)) (nlocs (obsdb m)) (flags m)"
  unfolding postFilter_def cell_loop_def cell_step_def [abs_def] by simp

lemma dv_shape_set: "dv_shape (dv_set d jv jobs v) = dv_shape d"
proof (cases "jv < length (dv_rows d)")
  case True
  then have "(map length (dv_rows d))[jv := length (dv_rows d ! jv)] = map length (dv_rows d)"
    by (metis length_map list_update_id nth_map)
  then show ?thesis by (simp add: dv_shape_def dv_set_def map_update)
next
  case False
  then show ?thesis by (simp add: dv_shape_def dv_set_def not_less list_update_beyond)
qed

lemma dv_get_set:
  assumes "jv < length (dv_rows d)" "jobs < length (dv_rows d ! jv)"
  shows "dv_get (dv_set d jv jobs v) jv' jobs' = (if jv' = jv \<and> jobs' = jobs then v else dv_get d jv' jobs')"
  using assms by (auto simp: dv_get_def dv_set_def nth_list_update)

lemma dv_shape_rows:
  "dv_shape a = dv_shape b \<Longrightarrow> length (dv_rows a) = length (dv_rows b)"
  "dv_shape a = dv_shape b \<Longrightarrow> jv < length (dv_rows b) \<Longrightarrow> length (dv_rows a ! jv) = length (dv_rows b ! jv)"
  apply (simp add: dv_shape_def, metis length_map)
  apply (simp add: dv_shape_def, metis length_map nth_map)
  done

lemma dv_shape_step: "dv_shape (cell_step c v jv jobs fl) = dv_shape fl"
  by (simp add: cell_step_def dv_shape_set)

lemma inner_loop:
  assumes "jv < length (dv_rows fl)" "n \<le> length (dv_rows fl ! jv)"
  shows "dv_shape (fold (cell_step c v jv) [0..<n] fl) = dv_shape fl \<and>
     (\<forall>jv' jobs'. dv_get (fold (cell_step c v jv) [0..<n] fl) jv' jobs' =
        (if jv' = jv \<and> jobs' < n \<and> c jv jobs' (dv_get fl jv jobs') then v else dv_get fl jv' jobs'))"
  using assms(2)
proof (induction n)
  case 0
  then show ?case by simp
next
  case (Suc n)
  let ?fl' = "fold (cell_step c v jv) [0..<n] fl"
  from Suc have sh: "dv_shape ?fl' = dv_shape fl"
    and val: "\<And>jv' jobs'. dv_get ?fl' jv' jobs' =
        (if jv' = jv \<and> jobs' < n \<and> c jv jobs' (dv_get fl jv jobs') then v else dv_get fl jv' jobs')"
    by simp_all
  have len: "jv < length (dv_rows ?fl')" "n < length (dv_rows ?fl' ! jv)"
    using dv_shape_rows [OF sh] assms(1) Suc.prems by simp_all
  have cur: "dv_get ?fl' jv n = dv_get fl jv n" by (simp add: val)
  have unf: "fold (cell_step c v jv) [0..<Suc n] fl = cell_step c v jv n ?fl'"
    by simp
  show ?case
  proof (cases "c jv n (dv_get fl jv n)")
    case True
    then have "cell_step c v jv n ?fl' = dv_set ?fl' jv n v"
      by (simp add: cell_step_def cur)
    then show ?thesis
      unfolding unf using True by (auto simp: dv_shape_set sh dv_get_set [OF len] val less_Suc_eq)
  next
    case False
    then have "cell_step c v jv n ?fl' = ?fl'"
      by (simp add: cell_step_def cur)
    then show ?thesis
      unfolding unf using False by (auto simp: sh val less_Suc_eq)
  qed
qed

lemma outer_loop:
  assumes "V \<le> length (dv_rows fl)" "\<forall>jv < V. N \<le> length (dv_rows fl ! jv)"
  shows "dv_shape (cell_loop c v V N fl) = dv_shape fl \<and>
     (\<forall>jv' jobs'. dv_get (cell_loop c v V N fl) jv' jobs' =
        (if jv' < V \<and> jobs' < N \<and> c jv' jobs' (dv_get fl jv' jobs') then v else dv_get fl jv' jobs'))"
  using assms
proof (induction V)
  case 0
  then show ?case by (simp add: cell_loop_def)
next
  case (Suc V)
  let ?fl' = "cell_loop c v V N fl"
  from Suc have sh: "dv_shape ?fl' = dv_shape fl"
    and val: "\<And>jv' jobs'. dv_get ?fl' jv' jobs' =
        (if jv' < V \<and> jobs' < N \<and> c jv' jobs' (dv_get fl jv' jobs') then v else dv_get fl jv' jobs')"
    by simp_all
  have len: "V < length (dv_rows ?fl')" "N \<le> length (dv_rows ?fl' ! V)"
    using dv_shape_rows [OF sh] Suc.prems by simp_all
  have unf: "cell_loop c v (Suc V) N fl = fold (cell_step c v V) [0..<N] ?fl'"
    by (simp add: cell_loop_def)
  show ?case
    unfolding unf using inner_loop [OF len, of c v]
    by (auto simp: sh val less_Suc_eq)
qed

section \<open>The two loops on well-formed flags\<close>

lemma dv_eqI:
  fixes a b :: "'a ObsDataVector"
  assumes sh: "dv_shape a = dv_shape b"
    and val: "\<And>jv jobs. dv_get a jv jobs = dv_get b jv jobs"
  shows "a = b"
proof -
  have "dv_rows a = dv_rows b"
  proof (rule nth_equalityI)
    show "length (dv_rows a) = length (dv_rows b)" by (rule dv_shape_rows(1) [OF sh])
  next
    fix i assume i: "i < length (dv_rows a)"
    then have ib: "i < length (dv_rows b)" using dv_shape_rows(1) [OF sh] by simp
    show "dv_rows a ! i = dv_rows b ! i"
    proof (rule nth_equalityI)
      show "length (dv_rows a ! i) = length (dv_rows b ! i)" by (rule dv_shape_rows(2) [OF sh ib])
    next
      fix j assume "j < length (dv_rows a ! i)"
      show "dv_rows a ! i ! j = dv_rows b ! i ! j" using val [of i j] by (simp add: dv_get_def)
    qed
  qed
  moreover have "dv_nvars a = dv_nvars b" "dv_nlocs a = dv_nlocs b" "dv_obstype a = dv_obstype b"
    using sh by (simp_all add: dv_shape_def)
  ultimately show ?thesis by simp
qed

lemma dv_ok_rows:
  "dv_ok d \<Longrightarrow> length (dv_rows d) = dv_nvars d"
  "dv_ok d \<Longrightarrow> jv < dv_nvars d \<Longrightarrow> length (dv_rows d ! jv) = dv_nlocs d"
  by (simp_all add: dv_ok_def list_all_length)

lemma dv_ok_shape: "dv_shape a = dv_shape b \<Longrightarrow> dv_ok b \<Longrightarrow> dv_ok a"
  by (auto simp: dv_ok_def dv_shape_def list_all_length) (metis length_map nth_map)+

lemma cell_loop_ok:
  assumes "dv_ok fl" "V = dv_nvars fl" "N = dv_nlocs fl"
  shows "dv_shape (cell_loop c v V N fl) = dv_shape fl"
    and "dv_get (cell_loop c v V N fl) jv jobs =
        (if jv < V \<and> jobs < N \<and> c jv jobs (dv_get fl jv jobs) then v else dv_get fl jv jobs)"
proof -
  have "V \<le> length (dv_rows fl)" "\<forall>jv < V. N \<le> length (dv_rows fl ! jv)"
    using assms dv_ok_rows [of fl] by simp_all
  from outer_loop [OF this, of c v]
  show "dv_shape (cell_loop c v V N fl) = dv_shape fl"
    and "dv_get (cell_loop c v V N fl) jv jobs =
        (if jv < V \<and> jobs < N \<and> c jv jobs (dv_get fl jv jobs) then v else dv_get fl jv jobs)"
    by simp_all
qed

lemma cell_loop_idem:
  assumes "dv_ok fl" "V = dv_nvars fl" "N = dv_nlocs fl"
  shows "cell_loop c v V N (cell_loop c v V N fl) = cell_loop c v V N fl"
proof (rule dv_eqI)
  let ?fl' = "cell_loop c v V N fl"
  have sh: "dv_shape ?fl' = dv_shape fl" by (rule cell_loop_ok(1) [OF assms])
  have ok': "dv_ok ?fl'" by (rule dv_ok_shape [OF sh assms(1)])
  have dims: "V = dv_nvars ?fl'" "N = dv_nlocs ?fl'" using sh assms by (simp_all add: dv_shape_def)
  show "dv_shape (cell_loop c v V N ?fl') = dv_shape ?fl'"
    by (rule cell_loop_ok(1) [OF ok' dims])
  fix jv jobs
  show "dv_get (cell_loop c v V N ?fl') jv jobs = dv_get ?fl' jv jobs"
    by (simp add: cell_loop_ok(2) [OF ok' dims] cell_loop_ok(2) [OF assms])
qed

lemma ctor_Inr:
  assumes "QCmanager_ctor q im fm db (Some fl) (Some err) = Inr m"
  shows "dv_nvars fl = length (obsvariables db)" "dv_nlocs fl = nlocs db"
    "dv_nvars err = length (obsvariables db)" "dv_nlocs err = nlocs db"
    "obsdb m = db" "observed m = obsvariables db"
    "flags m = cell_loop (\<lambda>jv jobs x. x = im
         \<or> dv_get (ObsDataVector_read db (obsvariables db) ''ObsValue'') jv jobs = fm
         \<or> dv_get err jv jobs = fm) (missing q) (dv_nvars fl) (dv_nlocs fl) fl"
  using assms
  by (auto simp: QCmanager_ctor_def assign_missing_cell_loop split: if_splits)

lemma ctor_ok:
  assumes "QCmanager_ctor q im fm db (Some fl) (Some err) = Inr m" "dv_ok fl"
  shows "QCmanager_ok m" "dv_shape (flags m) = dv_shape fl"
proof -
  note c = ctor_Inr [OF assms(1)]
  show sh: "dv_shape (flags m) = dv_shape fl"
    unfolding c(7) by (rule cell_loop_ok(1) [OF assms(2) refl refl])
  show "QCmanager_ok m"
    using dv_ok_shape [OF sh assms(2)] sh c by (simp add: QCmanager_ok_def dv_shape_def)
qed

lemma postFilter_ok:
  assumes "QCmanager_ok m"
  shows "QCmanager_ok (postFilter q dm m hofx)" "dv_shape (flags (postFilter q dm m hofx)) = dv_shape (flags m)"
proof -
  have a: "dv_ok (flags m)" "length (observed m) = dv_nvars (flags m)" "nlocs (obsdb m) = dv_nlocs (flags m)"
    using assms by (simp_all add: QCmanager_ok_def)
  show sh: "dv_shape (flags (postFilter q dm m hofx)) = dv_shape (flags m)"
    unfolding postFilter_cell_loop by (rule cell_loop_ok(1) [OF a])
  have "observed (postFilter q dm m hofx) = observed m" "obsdb (postFilter q dm m hofx) = obsdb m"
    by (simp_all add: postFilter_def)
  then show "QCmanager_ok (postFilter q dm m hofx)"
    using dv_ok_shape [OF sh a(1)] sh a by (simp add: QCmanager_ok_def dv_shape_def)
qed

lemma postFilter_get:
  assumes "QCmanager_ok m"
  shows "dv_get (flags (postFilter q dm m hofx)) jv jobs =
     (if jv < length (observed m) \<and> jobs < nlocs (obsdb m) \<and> dv_get (flags m) jv jobs = 0
         \<and> hofx ! (length (observed m) * jobs + jv) = dm
      then Hfailed q else dv_get (flags m) jv jobs)"
proof -
  have a: "dv_ok (flags m)" "length (observed m) = dv_nvars (flags m)" "nlocs (obsdb m) = dv_nlocs (flags m)"
    using assms by (simp_all add: QCmanager_ok_def)
  show ?thesis unfolding postFilter_cell_loop by (simp add: cell_loop_ok(2) [OF a])
qed

section \<open>Properties of the constructor and of \<open>postFilter\<close>\<close>

lemmas ex_defs = ufo_flags_def ex_imiss_def ex_rmiss_def ex_db_def ex_flags_def ex_obserr_def
  ex_manager_def

lemma ex_ctor:
  "QCmanager_ctor ufo_flags ex_imiss ex_rmiss ex_db (Some (ex_flags [0, 0, 0])) (Some ex_obserr)
     = Inr (ex_manager [0, 1, 1])"
  by (simp add: QCmanager_ctor_def assign_missing_def ObsDataVector_read_def dv_get_def dv_set_def
      ex_defs upt_rec)

lemma ex_ok: "dv_ok (ex_flags [a, b, c])" "dv_ok ex_obserr" "QCmanager_ok (ex_manager [a, b, c])"
  by (simp_all add: dv_ok_def QCmanager_ok_def ex_defs)

text \<open>
  C1. After a successful construction over well-formed flags and error estimates, a cell
  holds \<open>QCflags::missing\<close> if and only if, before, its flag was the missing marker of
  \<open>int\<close>, or its observed value or its error estimate was the missing marker of
  \<open>float\<close>, or it already held \<open>QCflags::missing\<close>. The assignment does not look at
  the flag the cell held, and a cell with none of the three markers keeps its flag.
\<close>

theorem C1_initializer_contract:
  assumes "QCmanager_ctor q im fm db (Some fl) (Some err) = Inr m"
    and "dv_ok fl" and "dv_ok err"
    and "jv < length (obsvariables db)" and "jobs < nlocs db"
  shows "(dv_get (flags m) jv jobs = missing q \<longleftrightarrow>
            dv_get fl jv jobs = im
          \<or> dv_get (ObsDataVector_read db (obsvariables db) ''ObsValue'') jv jobs = fm
          \<or> dv_get err jv jobs = fm
          \<or> dv_get fl jv jobs = missing q)
       \<and> (dv_get fl jv jobs = im
          \<or> dv_get (ObsDataVector_read db (obsvariables db) ''ObsValue'') jv jobs = fm
          \<or> dv_get err jv jobs = fm \<longrightarrow> dv_get (flags m) jv jobs = missing q)
       \<and> (\<not> (dv_get fl jv jobs = im
          \<or> dv_get (ObsDataVector_read db (obsvariables db) ''ObsValue'') jv jobs = fm
          \<or> dv_get err jv jobs = fm) \<longrightarrow> dv_get (flags m) jv jobs = dv_get fl jv jobs)"
proof -
  note c = ctor_Inr [OF assms(1)]
  have "jv < dv_nvars fl" "jobs < dv_nlocs fl" using c assms by simp_all
  then show ?thesis
    unfolding c(7) by (auto simp: cell_loop_ok(2) [OF assms(2) refl refl])
qed

theorem C1_initializer_contract_witness:
  "QCmanager_ctor ufo_flags ex_imiss ex_rmiss ex_db (Some (ex_flags [0, 0, 0])) (Some ex_obserr)
     = Inr (ex_manager [0, 1, 1])
   \<and> dv_ok (ex_flags [0, 0, 0]) \<and> dv_ok ex_obserr
   \<and> (1::nat) < nlocs ex_db \<and> (0::nat) < length (obsvariables ex_db)
   \<and> dv_get (ex_flags [0, 0, 0]) 0 1 \<noteq> ex_imiss
   \<and> dv_get (ObsDataVector_read ex_db (obsvariables ex_db) ''ObsValue'') 0 1 = ex_rmiss
   \<and> dv_get (flags (ex_manager [0, 1, 1])) 0 1 = missing ufo_flags"
proof -
  have jv: "(0::nat) < length (obsvariables ex_db)" and jobs: "(1::nat) < nlocs ex_db"
    by (simp_all add: ex_defs)
  have obs: "dv_get (ObsDataVector_read ex_db (obsvariables ex_db) ''ObsValue'') 0 1 = ex_rmiss"
    by (simp add: ObsDataVector_read_def dv_get_def ex_db_def upt_rec)
  have fl: "dv_get (ex_flags [0, 0, 0]) 0 1 \<noteq> ex_imiss"
    by (simp add: dv_get_def ex_defs)
  from C1_initializer_contract [OF ex_ctor ex_ok(1) ex_ok(2) jv jobs] obs
  have "dv_get (flags (ex_manager [0, 1, 1])) 0 1 = missing ufo_flags" by blast
  with ex_ctor ex_ok jv jobs obs fl show ?thesis by simp
qed

text \<open>
  C2. After \<open>postFilter\<close>, a cell that held \<open>pass\<close> and whose simulated value at
  \<open>observed_.size() * jobs + jv\<close> is the missing marker holds \<open>Hfailed\<close>; a cell
  that did not hold \<open>pass\<close> is unchanged; a \<open>pass\<close> cell with another simulated value
  stays \<open>pass\<close>. \<open>QCflags::pass\<close> is 0, the value the code tests.
\<close>

theorem C2_updater_contract:
  assumes "QCmanager_ok m" and "pass q = 0"
    and "length hofx = length (observed m) * nlocs (obsdb m)"
    and "jv < length (observed m)" and "jobs < nlocs (obsdb m)"
  shows "(dv_get (flags m) jv jobs = pass q \<and> hofx ! (length (observed m) * jobs + jv) = dm
            \<longrightarrow> dv_get (flags (postFilter q dm m hofx)) jv jobs = Hfailed q)
       \<and> (dv_get (flags m) jv jobs \<noteq> pass q
            \<longrightarrow> dv_get (flags (postFilter q dm m hofx)) jv jobs = dv_get (flags m) jv jobs)
       \<and> (dv_get (flags m) jv jobs = pass q \<and> hofx ! (length (observed m) * jobs + jv) \<noteq> dm
            \<longrightarrow> dv_get (flags (postFilter q dm m hofx)) jv jobs = pass q)"
  using assms(2,4,5) by (simp add: postFilter_get [OF assms(1)])

lemma ex_postFilter:
  "postFilter ufo_flags ex_rmiss (ex_manager [0, 1, 0]) [5, 5, ex_rmiss] = ex_manager [0, 1, 6]"
  by (simp add: postFilter_def dv_get_def dv_set_def ex_defs upt_rec)

theorem C2_updater_contract_witness:
  "QCmanager_ok (ex_manager [0, 1, 0]) \<and> pass ufo_flags = 0
   \<and> length [5, 5, ex_rmiss] = length (observed (ex_manager [0, 1, 0])) * nlocs (obsdb (ex_manager [0, 1, 0]))
   \<and> dv_get (flags (postFilter ufo_flags ex_rmiss (ex_manager [0, 1, 0]) [5, 5, ex_rmiss])) 0 2 = Hfailed ufo_flags
   \<and> dv_get (flags (postFilter ufo_flags ex_rmiss (ex_manager [0, 1, 0]) [5, 5, ex_rmiss])) 0 1 = 1
   \<and> dv_get (flags (postFilter ufo_flags ex_rmiss (ex_manager [0, 1, 0]) [5, 5, ex_rmiss])) 0 0 = pass ufo_flags"
proof -
  let ?m = "ex_manager [0, 1, 0]" and ?h = "[5, 5, ex_rmiss]"
  have p: "pass ufo_flags = 0" by (simp add: ufo_flags_def)
  have len: "length ?h = length (observed ?m) * nlocs (obsdb ?m)" by (simp add: ex_defs)
  have jv: "0 < length (observed ?m)" by (simp add: ex_defs)
  have j: "0 < nlocs (obsdb ?m)" "1 < nlocs (obsdb ?m)" "2 < nlocs (obsdb ?m)" by (simp_all add: ex_defs)
  have c: "dv_get (flags ?m) 0 0 = pass ufo_flags" "dv_get (flags ?m) 0 1 = 1"
     "dv_get (flags ?m) 0 1 \<noteq> pass ufo_flags" "dv_get (flags ?m) 0 2 = pass ufo_flags"
    by (simp_all add: dv_get_def ex_defs)
  have h: "?h ! (length (observed ?m) * 0 + 0) \<noteq> ex_rmiss" "?h ! (length (observed ?m) * 2 + 0) = ex_rmiss"
    by (simp_all add: ex_defs)
  from C2_updater_contract [OF ex_ok(3) p len jv j(1), of ex_rmiss]
       C2_updater_contract [OF ex_ok(3) p len jv j(2), of ex_rmiss]
       C2_updater_contract [OF ex_ok(3) p len jv j(3), of ex_rmiss] c h
  show ?thesis using ex_ok(3) p len by simp
qed

text \<open>
  C5. The constructor fails with a failed assertion, and returns no manager, exactly when
  the dimensions of the flags differ from those of the observed values or of the error
  estimates, or the number of flag variables differs from the length of the list of
  observed variables; it returns a manager when they all agree. A null pointer for the
  flags or the error estimates fails too.
\<close>

theorem C5_construction_dimensions:
  "(QCmanager_ctor q im fm db (Some fl) (Some err) = Inl ConfigurationError) =
     (\<not> ((dv_nvars fl, dv_nlocs fl) =
            (dv_nvars (ObsDataVector_read db (obsvariables db) ''ObsValue''),
             dv_nlocs (ObsDataVector_read db (obsvariables db) ''ObsValue''))
         \<and> (dv_nvars fl, dv_nlocs fl) = (dv_nvars err, dv_nlocs err)
         \<and> dv_nvars fl = length (obsvariables db)))
   \<and> (\<exists>m. QCmanager_ctor q im fm db (Some fl) (Some err) = Inr m) =
     ((dv_nvars fl, dv_nlocs fl) =
            (dv_nvars (ObsDataVector_read db (obsvariables db) ''ObsValue''),
             dv_nlocs (ObsDataVector_read db (obsvariables db) ''ObsValue''))
         \<and> (dv_nvars fl, dv_nlocs fl) = (dv_nvars err, dv_nlocs err)
         \<and> dv_nvars fl = length (obsvariables db))
   \<and> QCmanager_ctor q im fm db None obserr = Inl ConfigurationError
   \<and> QCmanager_ctor q im fm db qcflags None = Inl ConfigurationError"
  by (auto simp: QCmanager_ctor_def ObsDataVector_read_def split: option.splits)

text \<open>
  C8. On a well-formed manager, a second \<open>postFilter\<close> with the same simulated values
  changes nothing.
\<close>

theorem C8_updater_idempotent:
  assumes "QCmanager_ok m" and "length hofx = length (observed m) * nlocs (obsdb m)"
  shows "postFilter q dm (postFilter q dm m hofx) hofx = postFilter q dm m hofx"
proof -
  let ?m' = "postFilter q dm m hofx"
  have a: "dv_ok (flags m)" "length (observed m) = dv_nvars (flags m)" "nlocs (obsdb m) = dv_nlocs (flags m)"
    using assms(1) by (simp_all add: QCmanager_ok_def)
  have same: "observed ?m' = observed m" "obsdb ?m' = obsdb m"
    by (simp_all add: postFilter_def)
  have "flags (postFilter q dm ?m' hofx) = flags ?m'"
    unfolding postFilter_cell_loop [of q dm ?m'] same
    unfolding postFilter_cell_loop [of q dm m] by (rule cell_loop_idem [OF a])
  moreover have "postFilter q dm ?m' hofx = ?m'\<lparr>flags := flags (postFilter q dm ?m' hofx)\<rparr>"
    by (simp add: postFilter_def)
  ultimately show ?thesis by simp
qed

theorem C8_updater_idempotent_witness:
  "QCmanager_ok (ex_manager [0, 1, 0])
   \<and> length [5, 5, ex_rmiss] = length (observed (ex_manager [0, 1, 0])) * nlocs (obsdb (ex_manager [0, 1, 0]))
   \<and> postFilter ufo_flags ex_rmiss (ex_manager [0, 1, 6]) [5, 5, ex_rmiss] = ex_manager [0, 1, 6]"
proof -
  have len: "length [5, 5, ex_rmiss] = length (observed (ex_manager [0, 1, 0])) * nlocs (obsdb (ex_manager [0, 1, 0]))"
    by (simp add: ex_defs)
  from C8_updater_idempotent [OF ex_ok(3) len, of ufo_flags ex_rmiss]
  show ?thesis using ex_ok(3) len by (simp add: ex_postFilter)
qed

text \<open>
  C9. Constructing again over the flags that a successful construction left, with the
  same observation space and error estimates, succeeds with the same manager, so the
  loop changes nothing the second time; and a cell that held \<open>QCflags::missing\<close> before a
  construction holds it afterwards.
\<close>

theorem C9_initializer_idempotent:
  assumes "QCmanager_ctor q im fm db (Some fl) (Some err) = Inr m"
    and "dv_ok fl" and "dv_ok err"
  shows "QCmanager_ctor q im fm db (Some (flags m)) (Some err) = Inr m
       \<and> (\<forall>jv < dv_nvars fl. \<forall>jobs < dv_nlocs fl.
            dv_get fl jv jobs = missing q \<longrightarrow> dv_get (flags m) jv jobs = missing q)"
proof -
  note c = ctor_Inr [OF assms(1)]
  have sh: "dv_shape (flags m) = dv_shape fl" by (rule ctor_ok(2) [OF assms(1,2)])
  then have d: "dv_nvars (flags m) = dv_nvars fl" "dv_nlocs (flags m) = dv_nlocs fl"
    by (simp_all add: dv_shape_def)
  let ?c = "\<lambda>jv jobs x. x = im
         \<or> dv_get (ObsDataVector_read db (obsvariables db) ''ObsValue'') jv jobs = fm
         \<or> dv_get err jv jobs = fm"
  have idem: "cell_loop ?c (missing q) (dv_nvars fl) (dv_nlocs fl) (flags m) = flags m"
    unfolding c(7) by (rule cell_loop_idem [OF assms(2) refl refl])
  have "QCmanager_ctor q im fm db (Some (flags m)) (Some err) =
      Inr \<lparr>obsdb = db, flags = cell_loop ?c (missing q) (dv_nvars fl) (dv_nlocs fl) (flags m),
           observed = obsvariables db\<rparr>"
    using c(1-4) d by (simp add: QCmanager_ctor_def assign_missing_cell_loop)
  also have "\<dots> = Inr m" using c(5,6) by (simp add: idem)
  finally have one: "QCmanager_ctor q im fm db (Some (flags m)) (Some err) = Inr m" .
  have two: "\<forall>jv < dv_nvars fl. \<forall>jobs < dv_nlocs fl.
            dv_get fl jv jobs = missing q \<longrightarrow> dv_get (flags m) jv jobs = missing q"
    unfolding c(7) by (simp add: cell_loop_ok(2) [OF assms(2) refl refl])
  from one two show ?thesis by blast
qed

theorem C9_initializer_idempotent_witness:
  "QCmanager_ctor ufo_flags ex_imiss ex_rmiss ex_db (Some (ex_flags [1, 0, 0])) (Some ex_obserr)
     = Inr (ex_manager [1, 1, 1])
   \<and> dv_ok (ex_flags [1, 0, 0]) \<and> dv_ok ex_obserr
   \<and> QCmanager_ctor ufo_flags ex_imiss ex_rmiss ex_db (Some (ex_flags [1, 1, 1])) (Some ex_obserr)
     = Inr (ex_manager [1, 1, 1])
   \<and> dv_get (ex_flags [1, 0, 0]) 0 0 = missing ufo_flags
   \<and> dv_get (flags (ex_manager [1, 1, 1])) 0 0 = missing ufo_flags"
proof -
  have c: "QCmanager_ctor ufo_flags ex_imiss ex_rmiss ex_db (Some (ex_flags [1, 0, 0])) (Some ex_obserr)
     = Inr (ex_manager [1, 1, 1])"
    by (simp add: QCmanager_ctor_def assign_missing_def ObsDataVector_read_def dv_get_def dv_set_def
        ex_defs upt_rec)
  have f: "flags (ex_manager [1, 1, 1]) = ex_flags [1, 1, 1]" by (simp add: ex_manager_def)
  have d: "(0::nat) < dv_nvars (ex_flags [1, 0, 0])" "(0::nat) < dv_nlocs (ex_flags [1, 0, 0])"
    "dv_get (ex_flags [1, 0, 0]) 0 0 = missing ufo_flags"
    by (simp_all add: ex_defs dv_get_def)
  from C9_initializer_idempotent [OF c ex_ok(1) ex_ok(2)] d
  have "QCmanager_ctor ufo_flags ex_imiss ex_rmiss ex_db (Some (flags (ex_manager [1, 1, 1]))) (Some ex_obserr)
     = Inr (ex_manager [1, 1, 1])"
    and "dv_get (flags (ex_manager [1, 1, 1])) 0 0 = missing ufo_flags"
    by blast+
  then show ?thesis using c ex_ok(1) ex_ok(2) d(3) by (simp add: f)
qed

lemma apply_op_step:
  assumes "apply_op q im fm dm m x = Inr m1" and "QCmanager_ok m"
    and "pass q = 0" and "missing q \<noteq> pass q"
  shows "QCmanager_ok m1" and "dv_shape (flags m1) = dv_shape (flags m)"
    and "dv_get (flags m) jv jobs \<noteq> pass q \<Longrightarrow>
           dv_get (flags m1) jv jobs = dv_get (flags m) jv jobs
         \<or> (\<not> is_Updater x \<and> dv_get (flags m1) jv jobs = missing q)"
proof -
  have ok: "dv_ok (flags m)" using assms(2) by (simp add: QCmanager_ok_def)
  show "QCmanager_ok m1"
  proof (cases x)
    case (Initializer db obserr)
    with assms(1) obtain err where "obserr = Some err"
      by (cases obserr) (simp_all add: QCmanager_ctor_def)
    with Initializer assms(1) ok show ?thesis by (auto intro: ctor_ok(1))
  next
    case (Updater hofx)
    with assms(1,2) show ?thesis by (auto intro: postFilter_ok(1))
  qed
  show "dv_shape (flags m1) = dv_shape (flags m)"
  proof (cases x)
    case (Initializer db obserr)
    with assms(1) obtain err where "obserr = Some err"
      by (cases obserr) (simp_all add: QCmanager_ctor_def)
    with Initializer assms(1) ok show ?thesis by (auto intro: ctor_ok(2))
  next
    case (Updater hofx)
    with assms(1,2) show ?thesis by (auto intro: postFilter_ok(2))
  qed
  assume np: "dv_get (flags m) jv jobs \<noteq> pass q"
  show "dv_get (flags m1) jv jobs = dv_get (flags m) jv jobs
         \<or> (\<not> is_Updater x \<and> dv_get (flags m1) jv jobs = missing q)"
  proof (cases x)
    case (Initializer db obserr)
    with assms(1) obtain err where e: "obserr = Some err"
      by (cases obserr) (simp_all add: QCmanager_ctor_def)
    from Initializer e assms(1)
    have c: "QCmanager_ctor q im fm db (Some (flags m)) (Some err) = Inr m1" by simp
    show ?thesis
      unfolding ctor_Inr(7) [OF c] using Initializer
      by (simp add: cell_loop_ok(2) [OF ok refl refl])
  next
    case (Updater hofx)
    with assms(1) have "m1 = postFilter q dm m hofx" by simp
    then show ?thesis using np assms(3) by (simp add: postFilter_get [OF assms(2)])
  qed
qed

lemma run_ops_invariant:
  assumes "run_ops q im fm dm m ops = Inr m'" and "QCmanager_ok m"
    and "pass q = 0" and "missing q \<noteq> pass q"
    and "dv_get (flags m) jv jobs \<noteq> pass q"
  shows "dv_shape (flags m') = dv_shape (flags m)
       \<and> (dv_get (flags m') jv jobs = dv_get (flags m) jv jobs
           \<or> (\<not> list_all is_Updater ops \<and> dv_get (flags m') jv jobs = missing q))"
  using assms(1,2,5)
proof (induction ops arbitrary: m)
  case Nil
  then show ?case by simp
next
  case (Cons x xs)
  from Cons.prems(1) obtain m1 where
    s: "apply_op q im fm dm m x = Inr m1" and r: "run_ops q im fm dm m1 xs = Inr m'"
    by (auto split: sum.splits)
  note st = apply_op_step [OF s Cons.prems(2) assms(3,4)]
  from st(3) [OF Cons.prems(3)]
  have np1: "dv_get (flags m1) jv jobs \<noteq> pass q" using Cons.prems(3) assms(4) by auto
  from Cons.IH [OF r st(1) np1] st(2) st(3) [OF Cons.prems(3)]
  show ?case by auto
qed

text \<open>
  C4. In a run of constructor calls and \<open>postFilter\<close> calls on one flag matrix, in any
  order, a cell that does not hold \<open>pass\<close> never holds \<open>pass\<close> afterwards: it holds the
  flag it had, or \<open>QCflags::missing\<close>, and the latter only if the run has a constructor
  call. \<open>QCflags::pass\<close> is 0 and \<open>QCflags::missing\<close> is another value.
\<close>

theorem C4_never_downgrade:
  assumes "run_ops q im fm dm m ops = Inr m'" and "QCmanager_ok m"
    and "pass q = 0" and "missing q \<noteq> pass q"
    and "jv < dv_nvars (flags m)" and "jobs < dv_nlocs (flags m)"
    and "dv_get (flags m) jv jobs \<noteq> pass q"
  shows "dv_get (flags m') jv jobs \<noteq> pass q
       \<and> (dv_get (flags m') jv jobs = dv_get (flags m) jv jobs
           \<or> dv_get (flags m') jv jobs = missing q)
       \<and> (list_all is_Updater ops \<longrightarrow> dv_get (flags m') jv jobs = dv_get (flags m) jv jobs)"
  using run_ops_invariant [OF assms(1-4,7)] assms(4,7) by auto

theorem C4_never_downgrade_witness:
  "run_ops ufo_flags ex_imiss ex_rmiss ex_rmiss (ex_manager [2, 2, 0])
      [Updater [ex_rmiss, 5, ex_rmiss], Initializer ex_db (Some ex_obserr), Updater [ex_rmiss, 5, 5]]
     = Inr (ex_manager [2, 1, 1])
   \<and> QCmanager_ok (ex_manager [2, 2, 0]) \<and> pass ufo_flags = 0 \<and> missing ufo_flags \<noteq> pass ufo_flags
   \<and> (0::nat) < dv_nvars (flags (ex_manager [2, 2, 0])) \<and> (1::nat) < dv_nlocs (flags (ex_manager [2, 2, 0]))
   \<and> dv_get (flags (ex_manager [2, 2, 0])) 0 1 \<noteq> pass ufo_flags
   \<and> dv_get (flags (ex_manager [2, 1, 1])) 0 1 \<noteq> pass ufo_flags"
proof -
  have r: "run_ops ufo_flags ex_imiss ex_rmiss ex_rmiss (ex_manager [2, 2, 0])
      [Updater [ex_rmiss, 5, ex_rmiss], Initializer ex_db (Some ex_obserr), Updater [ex_rmiss, 5, 5]]
     = Inr (ex_manager [2, 1, 1])"
    by (simp add: postFilter_def QCmanager_ctor_def assign_missing_def ObsDataVector_read_def
        dv_get_def dv_set_def ex_defs upt_rec)
  have p: "pass ufo_flags = 0" "missing ufo_flags \<noteq> pass ufo_flags" by (simp_all add: ufo_flags_def)
  have i: "(0::nat) < dv_nvars (flags (ex_manager [2, 2, 0]))" "(1::nat) < dv_nlocs (flags (ex_manager [2, 2, 0]))"
    "dv_get (flags (ex_manager [2, 2, 0])) 0 1 \<noteq> pass ufo_flags"
    by (simp_all add: ex_defs dv_get_def)
  from C4_never_downgrade [OF r ex_ok(3) p i]
  show ?thesis using r ex_ok(3) p i by simp
qed

section \<open>Properties of \<open>print\<close>: counting\<close>

lemma incr_if_other: "(\<And>f c. F (u f c) = F c) \<Longrightarrow> F (incr_if b u c) = F c"
  by (simp add: incr_if_def)

lemma incr_if_same:
  "ipass (incr_if b ipass_update c) = ipass c + of_bool b"
  "imiss (incr_if b imiss_update c) = imiss c + of_bool b"
  "ipreq (incr_if b ipreq_update c) = ipreq c + of_bool b"
  "ibnds (incr_if b ibnds_update c) = ibnds c + of_bool b"
  "iwhit (incr_if b iwhit_update c) = iwhit c + of_bool b"
  "iblck (incr_if b iblck_update c) = iblck c + of_bool b"
  "iherr (incr_if b iherr_update c) = iherr c + of_bool b"
  "ifgss (incr_if b ifgss_update c) = ifgss c + of_bool b"
  "ithin (incr_if b ithin_update c) = ithin c + of_bool b"
  "ignss (incr_if b ignss_update c) = ignss c + of_bool b"
  by (simp_all add: incr_if_def)

lemmas incr_if_simps = incr_if_same
  incr_if_other [of iobs] incr_if_other [of ipass] incr_if_other [of imiss]
  incr_if_other [of ipreq] incr_if_other [of ibnds] incr_if_other [of iwhit]
  incr_if_other [of iblck] incr_if_other [of iherr] incr_if_other [of ifgss]
  incr_if_other [of ithin] incr_if_other [of ignss]

lemma count_flag_fields:
  "iobs (count_flag q f c) = iobs c"
  "ipass (count_flag q f c) = ipass c + of_bool (f = pass q)"
  "imiss (count_flag q f c) = imiss c + of_bool (f = missing q)"
  "ipreq (count_flag q f c) = ipreq c + of_bool (f = preQC q)"
  "ibnds (count_flag q f c) = ibnds c + of_bool (f = bounds q)"
  "iwhit (count_flag q f c) = iwhit c + of_bool (f = domain q)"
  "iblck (count_flag q f c) = iblck c + of_bool (f = black q)"
  "iherr (count_flag q f c) = iherr c + of_bool (f = Hfailed q)"
  "ifgss (count_flag q f c) = ifgss c + of_bool (f = fguess q)"
  "ithin (count_flag q f c) = ithin c + of_bool (f = thinned q)"
  "ignss (count_flag q f c) = ignss c + of_bool (f = 76 \<or> f = 77)"
  unfolding count_flag_def Let_def by (simp_all add: incr_if_simps del: of_bool_eq_iff)


lemma fold_count_flag_fields:
  "iobs (fold (count_flag q) xs c) = iobs c"
  "ipass (fold (count_flag q) xs c) = ipass c + of_nat (length (filter (\<lambda>f. f = pass q) xs))"
  "imiss (fold (count_flag q) xs c) = imiss c + of_nat (length (filter (\<lambda>f. f = missing q) xs))"
  "ipreq (fold (count_flag q) xs c) = ipreq c + of_nat (length (filter (\<lambda>f. f = preQC q) xs))"
  "ibnds (fold (count_flag q) xs c) = ibnds c + of_nat (length (filter (\<lambda>f. f = bounds q) xs))"
  "iwhit (fold (count_flag q) xs c) = iwhit c + of_nat (length (filter (\<lambda>f. f = domain q) xs))"
  "iblck (fold (count_flag q) xs c) = iblck c + of_nat (length (filter (\<lambda>f. f = black q) xs))"
  "iherr (fold (count_flag q) xs c) = iherr c + of_nat (length (filter (\<lambda>f. f = Hfailed q) xs))"
  "ifgss (fold (count_flag q) xs c) = ifgss c + of_nat (length (filter (\<lambda>f. f = fguess q) xs))"
  "ithin (fold (count_flag q) xs c) = ithin c + of_nat (length (filter (\<lambda>f. f = thinned q) xs))"
  "ignss (fold (count_flag q) xs c) = ignss c + of_nat (length (filter (\<lambda>f. f = 76 \<or> f = 77) xs))"
  by (induction xs arbitrary: c) (simp_all add: count_flag_fields)

lemma local_counts_column:
  "local_counts q m jj = fold (count_flag q) (column m jj)
       \<lparr>iobs = of_nat (nlocs (obsdb m)), ipass = 0, imiss = 0, ipreq = 0, ibnds = 0, iwhit = 0,
        iblck = 0, iherr = 0, ifgss = 0, ignss = 0, ithin = 0\<rparr>"
  by (simp add: local_counts_def column_def fold_map comp_def)

lemma local_counts_fields:
  "iobs (local_counts q m jj) = of_nat (nlocs (obsdb m))"
  "ipass (local_counts q m jj) = of_nat (length (filter (\<lambda>f. f = pass q) (column m jj)))"
  "imiss (local_counts q m jj) = of_nat (length (filter (\<lambda>f. f = missing q) (column m jj)))"
  "ipreq (local_counts q m jj) = of_nat (length (filter (\<lambda>f. f = preQC q) (column m jj)))"
  "ibnds (local_counts q m jj) = of_nat (length (filter (\<lambda>f. f = bounds q) (column m jj)))"
  "iwhit (local_counts q m jj) = of_nat (length (filter (\<lambda>f. f = domain q) (column m jj)))"
  "iblck (local_counts q m jj) = of_nat (length (filter (\<lambda>f. f = black q) (column m jj)))"
  "iherr (local_counts q m jj) = of_nat (length (filter (\<lambda>f. f = Hfailed q) (column m jj)))"
  "ifgss (local_counts q m jj) = of_nat (length (filter (\<lambda>f. f = fguess q) (column m jj)))"
  "ithin (local_counts q m jj) = of_nat (length (filter (\<lambda>f. f = thinned q) (column m jj)))"
  "ignss (local_counts q m jj) = of_nat (length (filter (\<lambda>f. f = 76 \<or> f = 77) (column m jj)))"
  unfolding local_counts_column by (simp_all add: fold_count_flag_fields)

lemma of_nat_sum_list_map:
  "(of_nat (sum_list (map f xs)) :: size_t) = sum_list (map (\<lambda>x. of_nat (f x)) xs)"
  by (induction xs) simp_all

lemma global_counts_fields:
  "iobs (global_counts q peers m jj) = of_nat (global_total (m # peers))"
  "ipass (global_counts q peers m jj) = of_nat (global_count (m # peers) jj (\<lambda>f. f = pass q))"
  "imiss (global_counts q peers m jj) = of_nat (global_count (m # peers) jj (\<lambda>f. f = missing q))"
  "ipreq (global_counts q peers m jj) = of_nat (global_count (m # peers) jj (\<lambda>f. f = preQC q))"
  "ibnds (global_counts q peers m jj) = of_nat (global_count (m # peers) jj (\<lambda>f. f = bounds q))"
  "iwhit (global_counts q peers m jj) = of_nat (global_count (m # peers) jj (\<lambda>f. f = domain q))"
  "iblck (global_counts q peers m jj) = of_nat (global_count (m # peers) jj (\<lambda>f. f = black q))"
  "iherr (global_counts q peers m jj) = of_nat (global_count (m # peers) jj (\<lambda>f. f = Hfailed q))"
  "ifgss (global_counts q peers m jj) = of_nat (global_count (m # peers) jj (\<lambda>f. f = fguess q))"
  "ithin (global_counts q peers m jj) = of_nat (global_count (m # peers) jj (\<lambda>f. f = thinned q))"
  "ignss (global_counts q peers m jj) = of_nat (global_count (m # peers) jj (\<lambda>f. f = 76 \<or> f = 77))"
  by (simp_all add: global_counts_def reduce_counts_def allReduceInPlace_def global_total_def
      global_count_def local_counts_fields comp_def of_nat_sum_list_map)


section \<open>Properties of \<open>print\<close>: writing and checking\<close>

lemma emit_if_append: "emit_if b l os = os @ (if b then [l] else [])"
  by (simp add: emit_if_def)

lemma report_append: "report info g os = os @ report info g []"
  unfolding report_def Let_def emit_if_append by simp

lemma print_var_eq:
  "print_var q peers m jj os =
     (if complete q peers m jj then Inr () else Inl ConsistencyError, os @ var_lines q peers m jj)"
  using report_append [of "info_of m jj" "global_counts q peers m jj" os]
  by (simp add: print_var_def complete_def var_lines_def Let_def)

lemma print_loop_eq:
  "print_loop q peers m jjs os =
     (if list_all (complete q peers m) jjs then Inr () else Inl ConsistencyError,
      os @ concat (map (var_lines q peers m)
             (takeWhile (complete q peers m) jjs @ take 1 (dropWhile (complete q peers m) jjs))))"
  by (induction jjs arbitrary: os) (simp_all add: print_var_eq)

text \<open>
  C3 (as the code has it). For the variables in their order, \<open>print\<close> writes the lines of
  a variable (on rank 0) and then checks the sum of its category counts against the
  total. It returns the error exactly when some variable fails the check, and what it
  has written then are the lines of every variable up to and including the first one
  that fails; nothing is written for the variables after it.
\<close>

theorem C3_check_follows_emission:
  "print q peers m os =
     (if list_all (complete q peers m) [0..<length (observed m)] then Inr () else Inl ConsistencyError,
      os @ concat (map (var_lines q peers m)
             (takeWhile (complete q peers m) [0..<length (observed m)]
              @ take 1 (dropWhile (complete q peers m) [0..<length (observed m)]))))"
  unfolding print_def by (rule print_loop_eq)

lemma string_of_nat_digit: "n < 10 \<Longrightarrow> string_of_nat n = [''0123456789'' ! n]"
  by (simp add: string_of_nat.simps)

lemma ex_global_counts:
  "global_counts ufo_flags [] (ex_manager [a, b, c]) 0 =
     fold (count_flag ufo_flags) [a, b, c]
       \<lparr>iobs = 3, ipass = 0, imiss = 0, ipreq = 0, ibnds = 0, iwhit = 0,
        iblck = 0, iherr = 0, ifgss = 0, ignss = 0, ithin = 0\<rparr>"
  by (simp add: global_counts_def reduce_counts_def allReduceInPlace_def local_counts_def
      ex_manager_def ex_db_def ex_flags_def dv_get_def upt_rec)

text \<open>
  Against C3 as stated: one worker of rank 0, one variable, the flags \<open>[0, 99, 0]\<close>.
  The check fails, and the summary line of the variable has been written.
\<close>

theorem C3_counterexample:
  "print ufo_flags [] (ex_manager [0, 99, 0]) [] =
     (Inl ConsistencyError, [''QC Radiosonde air_temperature: 2 passed out of 3 observations.''])"
proof -
  have g: "global_counts ufo_flags [] (ex_manager [0, 99, 0]) 0 =
       \<lparr>iobs = 3, ipass = 2, imiss = 0, ipreq = 0, ibnds = 0, iwhit = 0,
        iblck = 0, iherr = 0, ifgss = 0, ignss = 0, ithin = 0\<rparr>"
    unfolding ex_global_counts by (simp add: count_flag_def incr_if_def ufo_flags_def)
  have i: "info_of (ex_manager [0, 99, 0]) 0 = ''QC Radiosonde air_temperature: ''"
    by (simp add: info_of_def ex_manager_def ex_flags_def)
  have r: "comm_rank (obsdb (ex_manager [0, 99, 0])) = 0" "length (observed (ex_manager [0, 99, 0])) = 1"
    by (simp_all add: ex_manager_def ex_db_def)
  show ?thesis
    by (simp add: print_def r print_var_def g i category_sum_def report_def emit_if_def
        show_size_t_def string_of_nat_digit)
qed


section \<open>Properties of \<open>print\<close>: counts as numbers\<close>

lemma length_column: "length (column w jj) = nlocs (obsdb w)"
  by (simp add: column_def)

lemma global_count_le: "global_count ws jj P \<le> global_total ws"
  unfolding global_count_def global_total_def
  by (rule sum_list_mono) (metis length_column length_filter_le)

lemma unat_of_nat_size_t: "n < 2 ^ 64 \<Longrightarrow> unat (of_nat n :: size_t) = n"
  by (simp add: unat_of_nat)

lemma size_t_field_facts:
  assumes "n < 2 ^ 64" and "F = (of_nat n :: size_t)"
  shows "(0 < F) = (n \<noteq> 0)" and "show_size_t F = string_of_nat n"
proof -
  have u: "unat F = n" using assms by (simp add: unat_of_nat_size_t)
  show "show_size_t F = string_of_nat n" by (simp add: show_size_t_def u)
  show "(0 < F) = (n \<noteq> 0)" using u by (auto simp: word_greater_zero_iff unat_eq_0 [symmetric])
qed

lemma categories_of_flag:
  assumes "QCflags_distinct q"
  shows "(of_bool (f = pass q) + of_bool (f = missing q) + of_bool (f = preQC q)
          + of_bool (f = bounds q) + of_bool (f = domain q) + of_bool (f = black q)
          + of_bool (f = Hfailed q) + of_bool (f = thinned q) + of_bool (f = fguess q)
          + of_bool (f = 76 \<or> f = 77) :: nat) = of_bool (recognized q f)"
proof (cases "recognized q f")
  case False
  then show ?thesis by (simp add: recognized_def)
next
  case True
  then consider "f = pass q" | "f = missing q" | "f = preQC q" | "f = bounds q" | "f = domain q"
    | "f = black q" | "f = Hfailed q" | "f = fguess q" | "f = thinned q" | "f = 76" | "f = 77"
    by (auto simp: recognized_def)
  then show ?thesis
    using assms by cases (auto simp: QCflags_distinct_def recognized_def)
qed


lemma categories_of_column:
  assumes "QCflags_distinct q"
  shows "length (filter (\<lambda>f. f = pass q) xs) + length (filter (\<lambda>f. f = missing q) xs)
       + length (filter (\<lambda>f. f = preQC q) xs) + length (filter (\<lambda>f. f = bounds q) xs)
       + length (filter (\<lambda>f. f = domain q) xs) + length (filter (\<lambda>f. f = black q) xs)
       + length (filter (\<lambda>f. f = Hfailed q) xs) + length (filter (\<lambda>f. f = thinned q) xs)
       + length (filter (\<lambda>f. f = fguess q) xs) + length (filter (\<lambda>f. f = 76 \<or> f = 77) xs)
       = length (filter (recognized q) xs)"
proof (induction xs)
  case Nil
  then show ?case by simp
next
  case (Cons x xs)
  have len: "\<And>P. length (filter P (x # xs)) = of_bool (P x) + length (filter P xs)"
    by simp
  show ?case
    unfolding len using Cons.IH categories_of_flag [OF assms, of x] by linarith
qed

lemma categories_of_cluster:
  assumes "QCflags_distinct q"
  shows "global_count ws jj (\<lambda>f. f = pass q) + global_count ws jj (\<lambda>f. f = missing q)
       + global_count ws jj (\<lambda>f. f = preQC q) + global_count ws jj (\<lambda>f. f = bounds q)
       + global_count ws jj (\<lambda>f. f = domain q) + global_count ws jj (\<lambda>f. f = black q)
       + global_count ws jj (\<lambda>f. f = Hfailed q) + global_count ws jj (\<lambda>f. f = thinned q)
       + global_count ws jj (\<lambda>f. f = fguess q) + global_count ws jj (\<lambda>f. f = 76 \<or> f = 77)
       = global_count ws jj (recognized q)"
proof (induction ws)
  case Nil
  then show ?case by (simp add: global_count_def)
next
  case (Cons w ws)
  have step: "\<And>P. global_count (w # ws) jj P = length (filter P (column w jj)) + global_count ws jj P"
    by (simp add: global_count_def)
  show ?case
    unfolding step using Cons.IH categories_of_column [OF assms, of "column w jj"] by linarith
qed

lemma category_sum_global:
  assumes "QCflags_distinct q"
  shows "category_sum (global_counts q peers m jj) = of_nat (global_count (m # peers) jj (recognized q))"
  unfolding categories_of_cluster [OF assms, symmetric]
  by (simp add: category_sum_def global_counts_fields)

lemma complete_iff:
  assumes "QCflags_distinct q" and "global_total (m # peers) < 2 ^ 64"
  shows "complete q peers m jj \<longleftrightarrow> global_count (m # peers) jj (recognized q) = global_total (m # peers)"
proof -
  have le: "global_count (m # peers) jj (recognized q) \<le> global_total (m # peers)"
    by (rule global_count_le)
  then have lt: "global_count (m # peers) jj (recognized q) < 2 ^ 64" using assms(2) by simp
  have "complete q peers m jj \<longleftrightarrow>
      (of_nat (global_count (m # peers) jj (recognized q)) :: size_t) = of_nat (global_total (m # peers))"
    by (simp add: complete_def category_sum_global [OF assms(1)] global_counts_fields)
  also have "\<dots> \<longleftrightarrow> global_count (m # peers) jj (recognized q) = global_total (m # peers)"
    using unat_of_nat_size_t [OF lt] unat_of_nat_size_t [OF assms(2)] by metis
  finally show ?thesis .
qed

lemma count_flag_unrecognized:
  assumes "\<not> recognized q f"
  shows "count_flag q f c = c"
  using assms by (simp add: count_flag_def incr_if_def recognized_def)

text \<open>
  C6. With pairwise different constants and a global number of records that fits
  \<open>size_t\<close>, a cell of this worker whose flag is none of the recognized codes makes
  \<open>print\<close> end in the failed assertion; the inner loop counts such a flag in no category.
\<close>

theorem C6_unrecognized_code:
  assumes "QCflags_distinct q" and "global_total (m # peers) < 2 ^ 64"
    and "jv < length (observed m)" and "jobs < nlocs (obsdb m)"
    and "\<not> recognized q (dv_get (flags m) jv jobs)"
  shows "fst (print q peers m os) = Inl ConsistencyError
       \<and> count_flag q (dv_get (flags m) jv jobs) c = c"
proof -
  have "dv_get (flags m) jv jobs \<in> set (column m jv)"
    using assms(4) by (simp add: column_def)
  then have "length (filter (recognized q) (column m jv)) < length (column m jv)"
    using assms(5) by (rule length_filter_less)
  moreover have "global_count peers jv (recognized q) \<le> global_total peers"
    by (rule global_count_le)
  ultimately have "global_count (m # peers) jv (recognized q) < global_total (m # peers)"
    by (simp add: global_count_def global_total_def length_column)
  then have "\<not> complete q peers m jv"
    by (simp add: complete_iff [OF assms(1,2)])
  moreover have "jv \<in> set [0..<length (observed m)]" using assms(3) by simp
  ultimately have "\<not> list_all (complete q peers m) [0..<length (observed m)]"
    unfolding list_all_iff by blast
  then have "fst (print q peers m os) = Inl ConsistencyError"
    by (simp add: print_def print_loop_eq)
  then show ?thesis using count_flag_unrecognized [OF assms(5)] by simp
qed

lemma ex_total: "global_total [ex_manager row] < 2 ^ 64"
  by (simp add: global_total_def ex_manager_def ex_db_def)

theorem C6_unrecognized_code_witness:
  "QCflags_distinct ufo_flags \<and> global_total [ex_manager [0, 99, 0]] < 2 ^ 64
   \<and> (0::nat) < length (observed (ex_manager [0, 99, 0])) \<and> (1::nat) < nlocs (obsdb (ex_manager [0, 99, 0]))
   \<and> \<not> recognized ufo_flags (dv_get (flags (ex_manager [0, 99, 0])) 0 1)
   \<and> fst (print ufo_flags [] (ex_manager [0, 99, 0]) []) = Inl ConsistencyError"
proof -
  have d: "QCflags_distinct ufo_flags" by (simp add: QCflags_distinct_def ufo_flags_def)
  have i: "(0::nat) < length (observed (ex_manager [0, 99, 0]))" "(1::nat) < nlocs (obsdb (ex_manager [0, 99, 0]))"
    by (simp_all add: ex_manager_def ex_db_def)
  have u: "\<not> recognized ufo_flags (dv_get (flags (ex_manager [0, 99, 0])) 0 1)"
    by (simp add: recognized_def ufo_flags_def dv_get_def ex_manager_def ex_flags_def)
  from C6_unrecognized_code [OF d ex_total i u]
  show ?thesis using d ex_total i u by simp
qed

lemma map_filter_concat:
  "map f (filter P xs) = concat (map (\<lambda>x. if P x then [f x] else []) xs)"
  by (induction xs) simp_all

lemma var_lines_spec:
  assumes "global_total (m # peers) < 2 ^ 64" and "comm_rank (obsdb m) = 0"
  shows "var_lines q peers m jj = spec_report q (m # peers) jj (info_of m jj)"
proof -
  let ?g = "global_counts q peers m jj"
  have lt: "\<And>P. global_count (m # peers) jj P < 2 ^ 64"
    using global_count_le [of "m # peers" jj] assms(1) by (meson le_less_trans)
  note gf = global_counts_fields [of q peers m jj]
  note f = size_t_field_facts [OF lt gf(3)] size_t_field_facts [OF lt gf(4)]
    size_t_field_facts [OF lt gf(5)] size_t_field_facts [OF lt gf(6)]
    size_t_field_facts [OF lt gf(7)] size_t_field_facts [OF lt gf(8)]
    size_t_field_facts [OF lt gf(10)] size_t_field_facts [OF lt gf(9)]
    size_t_field_facts [OF lt gf(11)]
    size_t_field_facts(2) [OF lt gf(2)] size_t_field_facts(2) [OF assms(1) gf(1)]
  show ?thesis
    unfolding var_lines_def spec_report_def report_def Let_def emit_if_append f map_filter_concat
    using assms(2) by simp
qed

lemma takeWhile_first_failure_all:
  "list_all P xs \<Longrightarrow> takeWhile P xs @ take 1 (dropWhile P xs) = xs"
  by (induction xs) simp_all

text \<open>
  C7. A worker whose rank is not 0 writes nothing in \<open>print\<close>. On rank 0, when the
  global number of records fits \<open>size_t\<close>, what \<open>print\<close> writes is, for the variables in
  their order, the report of each variable: the line of each category whose global count
  is not zero, in the order missing, preQC, bounds, domain, black,
  forwardOperatorFailed, thinned, firstGuessFailed and gnssroRealityCheck (76 and 77
  counted together), and then the summary line with the number of \<open>pass\<close> cells and the
  total number of records. The variables reported are all of them when every assertion
  holds; otherwise \<open>print\<close> stops at the first variable whose assertion fails, after the
  report of that variable, and no line is written for a later variable. The same report
  is what one pass of the loop writes for its variable.
\<close>

theorem C7_report_emission:
  assumes "global_total (m # peers) < 2 ^ 64"
  shows "(comm_rank (obsdb m) \<noteq> 0 \<longrightarrow> snd (print q peers m os) = os)
       \<and> (comm_rank (obsdb m) = 0 \<longrightarrow>
            snd (print q peers m os) =
              os @ concat (map (\<lambda>jj. spec_report q (m # peers) jj (info_of m jj))
                     (takeWhile (complete q peers m) [0..<length (observed m)]
                      @ take 1 (dropWhile (complete q peers m) [0..<length (observed m)]))))
       \<and> (comm_rank (obsdb m) = 0 \<and> list_all (complete q peers m) [0..<length (observed m)] \<longrightarrow>
            print q peers m os =
              (Inr (), os @ concat (map (\<lambda>jj. spec_report q (m # peers) jj (info_of m jj))
                              [0..<length (observed m)])))
       \<and> (comm_rank (obsdb m) = 0 \<longrightarrow>
            snd (print_var q peers m jj os) = os @ spec_report q (m # peers) jj (info_of m jj))"
proof -
  have none: "snd (print q peers m os) = os" if "comm_rank (obsdb m) \<noteq> 0"
  proof -
    have "var_lines q peers m = (\<lambda>jj. [])" using that by (simp add: var_lines_def fun_eq_iff)
    then show ?thesis by (simp add: print_def print_loop_eq)
  qed
  have lines: "var_lines q peers m = (\<lambda>jj. spec_report q (m # peers) jj (info_of m jj))"
    if "comm_rank (obsdb m) = 0"
    by (rule ext) (rule var_lines_spec [OF assms that])
  have upto: "snd (print q peers m os) =
              os @ concat (map (\<lambda>jj. spec_report q (m # peers) jj (info_of m jj))
                     (takeWhile (complete q peers m) [0..<length (observed m)]
                      @ take 1 (dropWhile (complete q peers m) [0..<length (observed m)])))"
    if "comm_rank (obsdb m) = 0"
    unfolding print_def print_loop_eq lines [OF that] by simp
  have every: "print q peers m os =
              (Inr (), os @ concat (map (\<lambda>jj. spec_report q (m # peers) jj (info_of m jj))
                              [0..<length (observed m)]))"
    if "comm_rank (obsdb m) = 0" and "list_all (complete q peers m) [0..<length (observed m)]"
    unfolding print_def print_loop_eq lines [OF that(1)]
      takeWhile_first_failure_all [OF that(2)]
    using that(2) by simp
  have one: "snd (print_var q peers m jj os) = os @ spec_report q (m # peers) jj (info_of m jj)"
    if "comm_rank (obsdb m) = 0"
    by (simp add: print_var_eq var_lines_spec [OF assms that])
  from none upto every one show ?thesis by blast
qed

lemma ex_column: "column (ex_manager [a, b, c]) 0 = [a, b, c]"
  by (simp add: column_def ex_manager_def ex_db_def ex_flags_def dv_get_def upt_rec)

theorem C7_report_emission_witness:
  "global_total [ex_manager [0, 1, 6]] < 2 ^ 64
   \<and> comm_rank (obsdb (ex_manager [0, 1, 6])) = 0
   \<and> snd (print ufo_flags [] (ex_manager [0, 1, 6]) []) =
       [''QC Radiosonde air_temperature: 1 missing values.'',
        ''QC Radiosonde air_temperature: 1 H(x) failed.'',
        ''QC Radiosonde air_temperature: 1 passed out of 3 observations.'']"
proof -
  have r: "comm_rank (obsdb (ex_manager [0, 1, 6])) = 0" by (simp add: ex_manager_def ex_db_def)
  have v: "[0..<length (observed (ex_manager [0, 1, 6]))] = [0]"
    by (simp add: ex_manager_def)
  have i: "info_of (ex_manager [0, 1, 6]) 0 = ''QC Radiosonde air_temperature: ''"
    by (simp add: info_of_def ex_manager_def ex_flags_def)
  have t: "global_total [ex_manager [0, 1, 6]] = 3"
    by (simp add: global_total_def ex_manager_def ex_db_def)
  have s: "spec_report ufo_flags [ex_manager [0, 1, 6]] 0 ''QC Radiosonde air_temperature: '' =
       [''QC Radiosonde air_temperature: 1 missing values.'',
        ''QC Radiosonde air_temperature: 1 H(x) failed.'',
        ''QC Radiosonde air_temperature: 1 passed out of 3 observations.'']"
    by (simp add: spec_report_def global_count_def ex_column t ufo_flags_def string_of_nat_digit)
  have w: "takeWhile P [0::nat] @ take 1 (dropWhile P [0]) = [0]" for P
    by simp
  from C7_report_emission [OF ex_total, of "[0, 1, 6]" ufo_flags "[]"] r
  have "snd (print ufo_flags [] (ex_manager [0, 1, 6]) []) =
      [] @ concat (map (\<lambda>jj. spec_report ufo_flags [ex_manager [0, 1, 6]] jj (info_of (ex_manager [0, 1, 6]) jj))
         (takeWhile (complete ufo_flags [] (ex_manager [0, 1, 6])) [0..<length (observed (ex_manager [0, 1, 6]))]
          @ take 1 (dropWhile (complete ufo_flags [] (ex_manager [0, 1, 6])) [0..<length (observed (ex_manager [0, 1, 6]))])))"
    by blast
  then show ?thesis using ex_total r unfolding v w by (simp add: i s)
qed

lemma cell_loop_no_locations: "cell_loop c v V 0 fl = fl"
  by (simp add: cell_loop_def fold_id)

lemma global_counts_no_locations:
  assumes "nlocs (obsdb m) = 0"
  shows "global_counts q [] m jj =
       \<lparr>iobs = 0, ipass = 0, imiss = 0, ipreq = 0, ibnds = 0, iwhit = 0,
        iblck = 0, iherr = 0, ifgss = 0, ignss = 0, ithin = 0\<rparr>"
  using assms by (simp add: global_counts_def reduce_counts_def allReduceInPlace_def local_counts_def)

text \<open>
  C10. When the worker holds no record, a successful construction leaves the flags as
  they were, \<open>postFilter\<close> leaves the manager as it was, and \<open>print\<close> on a single worker
  (rank 0, no other worker) returns without error after writing, for each variable in
  order, the summary line with 0 passed out of 0 observations and no other line.
\<close>

theorem C10_empty_shard:
  assumes "QCmanager_ctor q im fm db (Some fl) (Some err) = Inr m"
    and "nlocs db = 0" and "comm_rank db = 0"
  shows "flags m = fl \<and> postFilter q dm m hofx = m
       \<and> print q [] m os =
           (Inr (), os @ map (\<lambda>v. ''QC '' @ dv_obstype fl @ '' '' @ v
                                 @ '': 0 passed out of 0 observations.'') (obsvariables db))"
proof -
  note c = ctor_Inr [OF assms(1)]
  have fl: "flags m = fl" using c(2,7) assms(2) by (simp add: cell_loop_no_locations)
  have n: "nlocs (obsdb m) = 0" and r: "comm_rank (obsdb m) = 0" using c(5) assms(2,3) by simp_all
  have "flags (postFilter q dm m hofx) = flags m"
    unfolding postFilter_cell_loop n by (rule cell_loop_no_locations)
  then have pf: "postFilter q dm m hofx = m" by (simp add: postFilter_def)
  have comp: "complete q [] m jj" for jj
    by (simp add: complete_def global_counts_no_locations [OF n] category_sum_def)
  have lines: "var_lines q [] m jj =
      [''QC '' @ dv_obstype fl @ '' '' @ observed m ! jj @ '': 0 passed out of 0 observations.'']" for jj
    by (simp add: var_lines_def r global_counts_no_locations [OF n] report_def emit_if_def
        show_size_t_def string_of_nat_digit info_of_def fl)
  have all: "list_all (complete q [] m) jjs" for jjs
    by (simp add: list_all_iff comp)
  have tw: "takeWhile (complete q [] m) jjs = jjs" "dropWhile (complete q [] m) jjs = []" for jjs
    by (simp_all add: comp)
  have "print q [] m os =
      (Inr (), os @ map (\<lambda>jj. ''QC '' @ dv_obstype fl @ '' '' @ observed m ! jj
                                 @ '': 0 passed out of 0 observations.'') [0..<length (observed m)])"
    by (simp add: print_def print_loop_eq all tw lines [abs_def] concat_map_singleton)
  also have "map (\<lambda>jj. ''QC '' @ dv_obstype fl @ '' '' @ observed m ! jj
                   @ '': 0 passed out of 0 observations.'') [0..<length (observed m)]
      = map (\<lambda>v. ''QC '' @ dv_obstype fl @ '' '' @ v @ '': 0 passed out of 0 observations.'')
          (map (\<lambda>jj. observed m ! jj) [0..<length (observed m)])"
    by (simp add: comp_def)
  also have "map (\<lambda>jj. observed m ! jj) [0..<length (observed m)] = obsvariables db"
    using c(6) by (simp add: map_nth)
  finally show ?thesis using fl pf by simp
qed

theorem C10_empty_shard_witness:
  "QCmanager_ctor ufo_flags ex_imiss ex_rmiss ex_empty_db (Some ex_empty) (Some ex_empty)
     = Inr \<lparr>obsdb = ex_empty_db, flags = ex_empty, observed = obsvariables ex_empty_db\<rparr>
   \<and> nlocs ex_empty_db = 0 \<and> comm_rank ex_empty_db = 0
   \<and> print ufo_flags [] \<lparr>obsdb = ex_empty_db, flags = ex_empty, observed = obsvariables ex_empty_db\<rparr> [] =
       (Inr (), [''QC Aircraft eastward_wind: 0 passed out of 0 observations.'',
                 ''QC Aircraft northward_wind: 0 passed out of 0 observations.''])"
proof -
  have c: "QCmanager_ctor ufo_flags ex_imiss ex_rmiss ex_empty_db (Some ex_empty) (Some ex_empty)
     = Inr \<lparr>obsdb = ex_empty_db, flags = ex_empty, observed = obsvariables ex_empty_db\<rparr>"
    by (simp add: QCmanager_ctor_def assign_missing_def ex_empty_db_def ex_empty_def upt_rec)
  have z: "nlocs ex_empty_db = 0" "comm_rank ex_empty_db = 0" by (simp_all add: ex_empty_db_def)
  from C10_empty_shard [OF c z, of ex_rmiss "[]" "[]"]
  show ?thesis using c z by (simp add: ex_empty_db_def ex_empty_def)
qed

end
